theory Spec2Isabelle
  imports Main "HOL-Library.Product_Lexorder" "HOL-Library.Extended_Nat" "HOL-Library.Multiset"
begin

section \<open>Data model\<close>

text \<open>
  A row of the raw release table read by \<^verbatim>\<open>data/convert.py\<close>, after the version string has
  been split into its three numeric components. The component columns are \<^verbatim>\<open>float64\<close> holding
  whole numbers (rows with a missing component are dropped before), so they are modelled as
  \<open>int\<close>, which is exact below \<open>2^53\<close>. A \<^verbatim>\<open>datetime64[ns]\<close> timestamp is the number of
  nanoseconds since the Unix epoch; differences of timestamps are taken in \<open>int\<close>, so the
  overflow of a 64-bit \<^verbatim>\<open>Timedelta\<close> (beyond about 292 years) is outside the model.
\<close>

record raw_release =
  package :: string
  version :: string
  major :: int
  minor :: int
  patch :: int
  date :: int

text \<open>A row of \<^verbatim>\<open>{ecosystem}-releases.csv.gz\<close>: the raw row with its two ranks.\<close>

record release = raw_release +
  rank :: int
  rank_date :: int

text \<open>
  A row of \<^verbatim>\<open>{ecosystem}-required.csv.gz\<close>; \<open>kind\<close> is one of the strings
  \<^verbatim>\<open>initial\<close>, \<^verbatim>\<open>major\<close>, \<^verbatim>\<open>minor\<close>, \<^verbatim>\<open>patch\<close>, and a missing
  \<^verbatim>\<open>backported_from\<close> (NaN) is \<open>None\<close>.
\<close>

record required = release +
  kind :: string
  backported :: bool
  backported_from :: "int option"

section \<open>The pandas operations used by the scripts\<close>

text \<open>\<^verbatim>\<open>Series.shift(1)\<close>: every value moves one row down, the first row becomes NaN.\<close>

definition shift1 :: "'a list \<Rightarrow> 'a option list" where
  "shift1 xs = (case xs of [] \<Rightarrow> [] | _ # _ \<Rightarrow> None # map Some (butlast xs))"

text \<open>\<^verbatim>\<open>Series.isnull()\<close>.\<close>

definition isnull :: "'a option \<Rightarrow> bool" where
  "isnull x = (x = None)"

text \<open>Subtraction of two float columns, row by row: NaN on either side gives NaN.\<close>

definition sub_nan :: "int \<Rightarrow> int option \<Rightarrow> int option" where
  "sub_nan a b = (case b of None \<Rightarrow> None | Some p \<Rightarrow> Some (a - p))"

text \<open>\<^verbatim>\<open>Series.clip(0, 1)\<close>: NaN stays NaN.\<close>

definition clip01 :: "int option \<Rightarrow> int option" where
  "clip01 x = (case x of None \<Rightarrow> None | Some v \<Rightarrow> Some (min 1 (max 0 v)))"

text \<open>\<^verbatim>\<open>Series.astype(bool)\<close> on floats: zero is False, anything else (NaN too) is True.\<close>

definition astype_bool :: "int option \<Rightarrow> bool" where
  "astype_bool x = (case x of None \<Rightarrow> True | Some v \<Rightarrow> v \<noteq> 0)"

text \<open>
  \<^verbatim>\<open>DataFrame.idxmax(axis=1)\<close> on one row of boolean columns: the label of the first column
  that holds the row's maximum (\<open>True\<close> if some column is \<open>True\<close>, else \<open>False\<close>).
\<close>

definition row_max :: "('l \<times> bool) list \<Rightarrow> bool" where
  "row_max cols = list_ex snd cols"

definition idxmax :: "('l \<times> bool) list \<Rightarrow> 'l option" where
  "idxmax cols = map_option fst (find (\<lambda>c. snd c = row_max cols) cols)"

text \<open>\<^verbatim>\<open>Series.expanding().max()\<close>: the running maximum, the current row included.\<close>

fun running_max :: "int \<Rightarrow> int list \<Rightarrow> int list" where
  "running_max m [] = []"
| "running_max m (x # xs) = max m x # running_max (max m x) xs"

definition expanding_max :: "int list \<Rightarrow> int list" where
  "expanding_max xs = (case xs of [] \<Rightarrow> [] | x # ys \<Rightarrow> x # running_max x ys)"

text \<open>\<^verbatim>\<open>Series.cumsum()\<close>.\<close>

fun cumsum_from :: "int \<Rightarrow> int list \<Rightarrow> int list" where
  "cumsum_from s [] = []"
| "cumsum_from s (x # xs) = (s + x) # cumsum_from (s + x) xs"

definition cumsum :: "int list \<Rightarrow> int list" where
  "cumsum xs = cumsum_from 0 xs"

text \<open>
  \<^verbatim>\<open>left.merge(right, how='left', left_on=[key], right_on=[rkey])\<close>: the rows of \<open>left\<close> in
  their order, each paired with every row of \<open>right\<close> whose key equals its own, or with nothing
  when no row of \<open>right\<close> does. A NaN key (\<open>None\<close>) matches no row of a \<open>right\<close> whose keys are
  all present.
\<close>

definition merge_left :: "'l list \<Rightarrow> ('l \<Rightarrow> int option) \<Rightarrow> 'r list \<Rightarrow> ('r \<Rightarrow> int) \<Rightarrow> ('l \<times> 'r option) list" where
  "merge_left left key right rkey =
     concat (map (\<lambda>l. case filter (\<lambda>r. Some (rkey r) = key l) right of
                         [] \<Rightarrow> [(l, None)]
                       | m # ms \<Rightarrow> map (\<lambda>r. (l, Some r)) (m # ms)) left)"

section \<open>Rank assignment (data/convert.py)\<close>

text \<open>
  The body of the loop over the package groups: sort by version components, number the rows,
  sort by date and rank, number the rows again. A sort on several columns is stable.
\<close>

definition with_ranks :: "raw_release \<Rightarrow> int \<Rightarrow> int \<Rightarrow> release" where
  "with_ranks r k n =
     \<lparr>package = package r, version = version r, major = major r, minor = minor r,
      patch = patch r, date = date r, rank = k, rank_date = n\<rparr>"

definition ones_cumsum :: "'a list \<Rightarrow> int list" where
  "ones_cumsum d = cumsum (map (\<lambda>_. 1) d)"

definition rank_group :: "raw_release list \<Rightarrow> release list" where
  "rank_group grp =
     (let by_version = sort_key (\<lambda>r. (major r, minor r, patch r)) grp;
          ranked = zip by_version (ones_cumsum by_version);
          by_date = sort_key (\<lambda>(r, k). (date r, k)) ranked
      in map (\<lambda>((r, k), n). with_ranks r k n) (zip by_date (ones_cumsum by_date)))"

section \<open>History classification (data/prepare.py)\<close>

subsection \<open>Update kind\<close>

text \<open>The \<^verbatim>\<open>.replace({'kind': {...}})\<close> step: the four column labels become the kind names.\<close>

definition replace_kind :: "string \<Rightarrow> string" where
  "replace_kind l =
     (if l = ''kinitial'' then ''initial''
      else if l = ''kmajor'' then ''major''
      else if l = ''kminor'' then ''minor''
      else if l = ''kpatch'' then ''patch''
      else l)"

text \<open>One of the three delta columns: \<^verbatim>\<open>(d[c] - d[c].shift(1)).clip(0, 1).astype(bool)\<close>.\<close>

definition delta_column :: "int list \<Rightarrow> bool list" where
  "delta_column c = map astype_bool (map clip01 (map2 sub_nan c (shift1 c)))"

text \<open>The \<^verbatim>\<open>kind\<close> column of a frame already sorted by rank.\<close>

definition kind_column :: "release list \<Rightarrow> string list" where
  "kind_column d =
     (let kinitial = map isnull (shift1 (map major d));
          kmajor = delta_column (map major d);
          kminor = delta_column (map minor d);
          kpatch = delta_column (map patch d)
      in map (\<lambda>(i, ma, mi, pa).
                case idxmax [(''kinitial'', i), (''kmajor'', ma), (''kminor'', mi), (''kpatch'', pa)] of
                  Some l \<Rightarrow> replace_kind l
                | None \<Rightarrow> [])
             (zip kinitial (zip kmajor (zip kminor kpatch))))"

text \<open>
  The frame sorted by rank, with its \<^verbatim>\<open>kind\<close> column. A sort on one column does not promise
  an order among equal keys; the model keeps them in their given order. The ranks of a
  package are unique, and then every rank-ascending arrangement of the group is this one
  (\<open>rank_order_unique\<close>); the properties of the kinds are stated for unique ranks only.
\<close>

definition assign_kind :: "release list \<Rightarrow> (release \<times> string) list" where
  "assign_kind grp = (let d = sort_key rank grp in zip d (kind_column d))"

subsection \<open>Backport detection\<close>

text \<open>
  The frame is sorted by date, then rank; the \<^verbatim>\<open>backported\<close> column holds the running
  maximum of the rank where the release's major is below the running maximum of the major,
  and NaN elsewhere.
\<close>

definition chronological :: "(release \<times> string) list \<Rightarrow> (release \<times> string) list" where
  "chronological d = sort_key (\<lambda>(r, k). (date r, rank r)) d"

definition detect_backported :: "(release \<times> string) list \<Rightarrow> ((release \<times> string) \<times> int option) list" where
  "detect_backported d0 =
     (let d = chronological d0;
          highest_major = expanding_max (map (\<lambda>(r, k). major r) d);
          highest_rank = expanding_max (map (\<lambda>(r, k). rank r) d)
      in zip d (map (\<lambda>((r, k), hm, hr). if major r < hm then Some hr else None)
                    (zip d (zip highest_major highest_rank))))"

subsection \<open>Backport attribution\<close>

text \<open>\<^verbatim>\<open>pandas.to_datetime('1900-01-01')\<close>: 25567 days before the epoch, in nanoseconds.\<close>

definition date_1900 :: int where
  "date_1900 = - (25567 * 86400 * 1000000000)"

text \<open>\<^verbatim>\<open>abs(d['date'] - d[other])\<close>: a missing date (NaT) gives a missing difference.\<close>

definition abs_diff :: "int \<Rightarrow> int option \<Rightarrow> int option" where
  "abs_diff a b = (case b of None \<Rightarrow> None | Some x \<Rightarrow> Some \<bar>a - x\<bar>)"

text \<open>\<^verbatim>\<open><=\<close> on two columns of differences: False as soon as one side is missing.\<close>

definition le_nat :: "int option \<Rightarrow> int option \<Rightarrow> bool" where
  "le_nat a b = (case (a, b) of (Some x, Some y) \<Rightarrow> x \<le> y | _ \<Rightarrow> False)"

text \<open>
  The last \<^verbatim>\<open>assign\<close> of the \<^verbatim>\<open>.pipe(...)\<close> step on one row of the doubly merged frame:
  \<open>p\<close> is the matched row (date, rank) of the first merge and \<open>n\<close> that of the second,
  either of them missing when nothing matched. \<^verbatim>\<open>rank_next\<close> is raised by one again, a missing
  \<^verbatim>\<open>date_next\<close> is filled with 1900-01-01, and \<^verbatim>\<open>rank_previous.where(cond, rank_next)\<close>
  keeps \<^verbatim>\<open>rank_previous\<close> where the condition holds and takes \<^verbatim>\<open>rank_next\<close> elsewhere.
  The result row is (release, kind, backported, backported\_from).
\<close>

definition closest_row ::
    "(((release \<times> string) \<times> int option) \<times> (int \<times> int) option) \<times> (int \<times> int) option
     \<Rightarrow> release \<times> string \<times> int option \<times> int option" where
  "closest_row x =
     (case x of ((((r, k), b), p), n) \<Rightarrow>
        let date_previous = map_option fst p;
            rank_previous = map_option snd p;
            rank_next = map_option (\<lambda>(d, rk). rk + 1) n;
            date_next = (case n of None \<Rightarrow> Some date_1900 | Some (d, rk) \<Rightarrow> Some d)
        in (r, k, b,
            if le_nat (abs_diff (date r) date_previous) (abs_diff (date r) date_next)
            then rank_previous else rank_next))"

text \<open>
  The \<^verbatim>\<open>.pipe(...)\<close> step. \<open>previous\<close> holds the date and rank columns of \<^verbatim>\<open>df\<close> and \<open>nxt\<close> the same
  frame with every rank lowered by one; both are joined on the \<^verbatim>\<open>backported\<close> column.
\<close>

definition closest_release ::
    "((release \<times> string) \<times> int option) list \<Rightarrow> (release \<times> string \<times> int option \<times> int option) list" where
  "closest_release df =
     (let previous = map (\<lambda>((r, k), b). (date r, rank r)) df;
          nxt = map (\<lambda>(d, rk). (d, rk - 1)) previous;
          m1 = merge_left df snd previous snd;
          m2 = merge_left m1 (\<lambda>(l, p). snd l) nxt snd
      in map closest_row m2)"

definition with_classification :: "release \<Rightarrow> string \<Rightarrow> bool \<Rightarrow> int option \<Rightarrow> required" where
  "with_classification r k b bf =
     \<lparr>package = package r, version = version r, major = major r, minor = minor r,
      patch = patch r, date = date r, rank = rank r, rank_date = rank_date r,
      kind = k, backported = b, backported_from = bf\<rparr>"

text \<open>The whole body of the loop over the package groups.\<close>

definition classify_group :: "release list \<Rightarrow> required list" where
  "classify_group grp =
     map (\<lambda>(r, k, b, bf). with_classification r k (\<not> isnull b) bf)
         (closest_release (detect_backported (assign_kind grp)))"

section \<open>Versions, intervals and constraint parsers\<close>

text \<open>
  Modelled from the spec: the modules \<^verbatim>\<open>version\<close> and \<^verbatim>\<open>parsers\<close> that
  \<^verbatim>\<open>data/prepare.py\<close> imports (\<^verbatim>\<open>Version\<close>, the intervals the parsers return and
  \<^verbatim>\<open>parse_or_empty\<close>) are not among the sources. A Version is a triple of components, each a
  non-negative number or infinity, ordered lexicographically.
\<close>

type_synonym Version = "enat \<times> enat \<times> enat"

definition Version :: "enat \<Rightarrow> enat \<Rightarrow> enat \<Rightarrow> Version" where
  "Version ma mi pa = (ma, mi, pa)"

definition major_of :: "Version \<Rightarrow> enat" where
  "major_of v = fst v"

definition minor_of :: "Version \<Rightarrow> enat" where
  "minor_of v = fst (snd v)"

text \<open>
  Modelled from the spec: an Interval is a finite, possibly empty list of ranges, each with an
  inclusive lower bound and an upper bound that is either an exclusive Version or unbounded.
\<close>

datatype upper = Excl Version | Unbounded

type_synonym Interval = "(Version \<times> upper) list"

datatype failure = ParseFailure | UndefinedBoundAccess

definition Interval_empty :: Interval where
  "Interval_empty = []"

definition is_empty :: "Interval \<Rightarrow> bool" where
  "is_empty i = (i = [])"

fun in_range :: "Version \<Rightarrow> Version \<times> upper \<Rightarrow> bool" where
  "in_range v (lo, Excl hi) = (lo \<le> v \<and> v < hi)"
| "in_range v (lo, Unbounded) = (lo \<le> v)"

text \<open>Modelled from the spec: \<open>contains\<close> scans the ranges in order (\<^verbatim>\<open>v in interval\<close>).\<close>

definition contains :: "Interval \<Rightarrow> Version \<Rightarrow> bool" where
  "contains i v = list_ex (in_range v) i"

text \<open>Modelled from the spec: \<open>lowest_bound\<close> (\<^verbatim>\<open>interval.lower\<close>) is undefined on the empty interval.\<close>

definition lowest_bound :: "Interval \<Rightarrow> failure + Version" where
  "lowest_bound i = (case i of [] \<Rightarrow> Inl UndefinedBoundAccess | (lo, hi) # _ \<Rightarrow> Inr lo)"

text \<open>
  Modelled from the spec: \<^verbatim>\<open>v > interval\<close> holds when \<open>v\<close> is above the whole interval, that
  is at or above the exclusive upper bound of every range.
\<close>

definition above :: "Version \<Rightarrow> Interval \<Rightarrow> bool" where
  "above v i = list_all (\<lambda>(lo, hi). case hi of Excl h \<Rightarrow> h \<le> v | Unbounded \<Rightarrow> False) i"

text \<open>
  Modelled from the spec: a parser maps a raw constraint to an Interval or fails, and
  \<open>parse_or_empty\<close> turns every failure into the empty Interval.
\<close>

type_synonym parser = "string \<Rightarrow> failure + Interval"

definition parse_or_empty :: "parser \<Rightarrow> string \<Rightarrow> Interval" where
  "parse_or_empty parser raw = (case parser raw of Inl e \<Rightarrow> Interval_empty | Inr i \<Rightarrow> i)"

section \<open>Constraint descriptors and release selection (data/prepare.py)\<close>

text \<open>The dictionary \<^verbatim>\<open>d\<close> stored for a constraint; its flags are written out as \<^verbatim>\<open>c_empty\<close> ...\<close>

record descriptors =
  interval :: Interval
  c_empty :: bool
  c_major :: bool
  c_minor :: bool
  c_patch :: bool
  c_dev :: bool

definition describe :: "Interval \<Rightarrow> failure + descriptors" where
  "describe i =
     (if is_empty i then
        Inr \<lparr>interval = i, c_empty = True, c_major = False, c_minor = False, c_patch = False,
             c_dev = False\<rparr>
      else
        (case lowest_bound i of
           Inl e \<Rightarrow> Inl e
         | Inr base \<Rightarrow>
             Inr \<lparr>interval = i, c_empty = False,
                  c_major = contains i (Version \<infinity> 0 0),
                  c_minor = contains i (Version (major_of base) \<infinity> 0),
                  c_patch = contains i (Version (major_of base) (minor_of base) \<infinity>),
                  c_dev = above (Version 1 0 0) i\<rparr>))"

text \<open>The body of the loop over the distinct constraints.\<close>

definition constraint_entry :: "parser \<Rightarrow> string \<Rightarrow> failure + descriptors" where
  "constraint_entry parser c = describe (parse_or_empty parser c)"

text \<open>
  The scan of lines 233 to 236: the rank of the first release whose Version is in the interval,
  NaN (\<open>None\<close>) when the loop ends without a \<^verbatim>\<open>break\<close>.
\<close>

fun first_accepted :: "Interval \<Rightarrow> (required \<times> Version) list \<Rightarrow> int option" where
  "first_accepted i [] = None"
| "first_accepted i ((r, v) # rs) = (if contains i v then Some (rank r) else first_accepted i rs)"

text \<open>
  The releases of the target, each with the Version built from its version string by
  \<open>to_version\<close> (the constructor \<^verbatim>\<open>Version(v)\<close>, a parameter here), by descending rank.
\<close>

definition target_releases :: "(string \<Rightarrow> Version) \<Rightarrow> required list \<Rightarrow> string \<Rightarrow> (required \<times> Version) list" where
  "target_releases to_version df_required target =
     sort_key (\<lambda>(r, v). - rank r)
       (map (\<lambda>r. (r, to_version (version r))) (filter (\<lambda>r. package r = target) df_required))"

definition selected :: "(string \<Rightarrow> Version) \<Rightarrow> required list \<Rightarrow> string \<Rightarrow> Interval \<Rightarrow> int option" where
  "selected to_version df_required target i =
     first_accepted i (target_releases to_version df_required target)"

text \<open>
  Modelled from the spec: the interval "with its upper bound widened to unbounded" is the
  interval whose last (highest) range has lost its upper bound.
\<close>

definition widen_upper :: "Interval \<Rightarrow> Interval" where
  "widen_upper i = (case i of [] \<Rightarrow> [] | _ # _ \<Rightarrow> butlast i @ [(fst (last i), Unbounded)])"

text \<open>The ranks of the releases of \<open>target\<close> whose Version the interval contains.\<close>

definition accepted_ranks :: "(string \<Rightarrow> Version) \<Rightarrow> required list \<Rightarrow> string \<Rightarrow> Interval \<Rightarrow> int set" where
  "accepted_ranks tv df target i =
     rank ` {r \<in> set df. package r = target \<and> contains i (tv (version r))}"

section \<open>Example inputs\<close>

text \<open>
  The release set of the spec's selection example: 1.0.0, 1.5.0, 1.9.0 and 2.0.0 of one package,
  and the constraint interval from 1.2.0 (included) to 2.0.0 (excluded).
\<close>

definition example_required :: "required list" where
  "example_required =
     [\<lparr>package = ''left-pad'', version = ''1.0.0'', major = 1, minor = 0, patch = 0, date = 100,
       rank = 1, rank_date = 1, kind = ''initial'', backported = False, backported_from = None\<rparr>,
      \<lparr>package = ''left-pad'', version = ''1.5.0'', major = 1, minor = 5, patch = 0, date = 200,
       rank = 2, rank_date = 2, kind = ''minor'', backported = False, backported_from = None\<rparr>,
      \<lparr>package = ''left-pad'', version = ''1.9.0'', major = 1, minor = 9, patch = 0, date = 300,
       rank = 3, rank_date = 3, kind = ''minor'', backported = False, backported_from = None\<rparr>,
      \<lparr>package = ''left-pad'', version = ''2.0.0'', major = 2, minor = 0, patch = 0, date = 400,
       rank = 4, rank_date = 4, kind = ''major'', backported = False, backported_from = None\<rparr>]"

definition example_version :: "string \<Rightarrow> Version" where
  "example_version s =
     (if s = ''1.0.0'' then Version 1 0 0
      else if s = ''1.5.0'' then Version 1 5 0
      else if s = ''1.9.0'' then Version 1 9 0
      else Version 2 0 0)"

definition example_interval :: Interval where
  "example_interval = [(Version 1 2 0, Excl (Version 2 0 0))]"

section \<open>Derived views used in the statements\<close>

text \<open>
  The releases of a group in the order in which the backport detection processes them: the
  frame with its kinds, sorted by date and then rank, without the kind column.
\<close>

definition timeline :: "release list \<Rightarrow> release list" where
  "timeline grp = map fst (chronological (assign_kind grp))"

text \<open>
  What the two merges and the comparison of \<open>closest_release\<close> compute for a row with date
  \<open>date r\<close> and \<^verbatim>\<open>backported\<close> value \<open>b\<close> when every rank occurs once in \<open>rs\<close>: \<open>p\<close> is
  the release whose rank is \<open>b\<close> and \<open>n\<close> the release whose rank is one more.
\<close>

definition attribution :: "release list \<Rightarrow> release \<Rightarrow> int option \<Rightarrow> int option" where
  "attribution rs r b =
     (let p = find (\<lambda>x. Some (rank x) = b) rs;
          n = find (\<lambda>x. Some (rank x - 1) = b) rs
      in if le_nat (abs_diff (date r) (map_option date p))
                   (abs_diff (date r) (case n of None \<Rightarrow> Some date_1900 | Some x \<Rightarrow> Some (date x)))
         then map_option rank p else map_option rank n)"

text \<open>The frame of \<open>rank_group\<close> after its first and after its second sort.\<close>

definition ranked_by_version :: "raw_release list \<Rightarrow> (raw_release \<times> int) list" where
  "ranked_by_version grp =
     (let by_version = sort_key (\<lambda>r. (major r, minor r, patch r)) grp
      in zip by_version (ones_cumsum by_version))"

definition ranked_by_date :: "raw_release list \<Rightarrow> (raw_release \<times> int) list" where
  "ranked_by_date grp = sort_key (\<lambda>(r, k). (date r, k)) (ranked_by_version grp)"

text \<open>
  A history with a backport: 1.0.1 is published after 2.0.0, nearer in time to 2.1.0 than to
  2.0.0. In \<open>example_tie\<close> it is as far from the one as from the other. \<open>example_raw\<close> is the
  same history before the ranks are assigned.
  The dates are a few hundred nanoseconds after the epoch: only their order and their
  differences matter, and all of them are later than 1900-01-01.
\<close>

definition example_history :: "release list" where
  "example_history =
     [\<lparr>package = ''left-pad'', version = ''1.0.0'', major = 1, minor = 0, patch = 0, date = 100,
       rank = 1, rank_date = 1\<rparr>,
      \<lparr>package = ''left-pad'', version = ''1.0.1'', major = 1, minor = 0, patch = 1, date = 350,
       rank = 2, rank_date = 3\<rparr>,
      \<lparr>package = ''left-pad'', version = ''2.0.0'', major = 2, minor = 0, patch = 0, date = 200,
       rank = 3, rank_date = 2\<rparr>,
      \<lparr>package = ''left-pad'', version = ''2.1.0'', major = 2, minor = 1, patch = 0, date = 400,
       rank = 4, rank_date = 4\<rparr>]"

definition example_tie :: "release list" where
  "example_tie =
     [\<lparr>package = ''left-pad'', version = ''1.0.0'', major = 1, minor = 0, patch = 0, date = 100,
       rank = 1, rank_date = 1\<rparr>,
      \<lparr>package = ''left-pad'', version = ''1.0.1'', major = 1, minor = 0, patch = 1, date = 300,
       rank = 2, rank_date = 3\<rparr>,
      \<lparr>package = ''left-pad'', version = ''2.0.0'', major = 2, minor = 0, patch = 0, date = 200,
       rank = 3, rank_date = 2\<rparr>,
      \<lparr>package = ''left-pad'', version = ''2.1.0'', major = 2, minor = 1, patch = 0, date = 400,
       rank = 4, rank_date = 4\<rparr>]"

definition example_raw :: "raw_release list" where
  "example_raw =
     [\<lparr>package = ''left-pad'', version = ''1.0.0'', major = 1, minor = 0, patch = 0, date = 100\<rparr>,
      \<lparr>package = ''left-pad'', version = ''2.0.0'', major = 2, minor = 0, patch = 0, date = 200\<rparr>,
      \<lparr>package = ''left-pad'', version = ''1.0.1'', major = 1, minor = 0, patch = 1, date = 350\<rparr>,
      \<lparr>package = ''left-pad'', version = ''2.1.0'', major = 2, minor = 1, patch = 0, date = 400\<rparr>]"

section \<open>Properties of the constraint descriptors\<close>

lemma describe_total: "\<exists>d. describe i = Inr d"
  by (cases i) (auto simp: describe_def is_empty_def lowest_bound_def)

text \<open>
  Claim C5. \<open>parse_or_empty\<close> is total: whatever the parser and the raw string, it returns an
  Interval, the empty one when the parser fails and the parser's own otherwise; and the
  descriptor computation that consumes it returns a descriptor record for every raw string, so
  no constraint aborts the batch.
\<close>

theorem parse_or_empty_total:
  "(case parser raw of
      Inl e \<Rightarrow> parse_or_empty parser raw = Interval_empty \<and> is_empty (parse_or_empty parser raw)
    | Inr i \<Rightarrow> parse_or_empty parser raw = i)
   \<and> (\<exists>d. constraint_entry parser raw = Inr d)"
  using describe_total[of "parse_or_empty parser raw"]
  by (auto simp: parse_or_empty_def Interval_empty_def is_empty_def constraint_entry_def split: sum.splits)

text \<open>
  Claim C8. When the parse result of a constraint is the empty Interval, its descriptors are
  \<open>empty = True\<close> and \<open>major = minor = patch = dev = False\<close>.
\<close>

theorem empty_interval_descriptors:
  "is_empty (parse_or_empty parser c) \<Longrightarrow>
   constraint_entry parser c =
     Inr \<lparr>interval = parse_or_empty parser c, c_empty = True, c_major = False, c_minor = False,
          c_patch = False, c_dev = False\<rparr>"
  by (simp add: constraint_entry_def describe_def)

theorem empty_interval_descriptors_witness:
  "is_empty (parse_or_empty (\<lambda>s. Inl ParseFailure) ''>=x'') \<and>
   constraint_entry (\<lambda>s. Inl ParseFailure) ''>=x'' =
     Inr \<lparr>interval = [], c_empty = True, c_major = False, c_minor = False,
          c_patch = False, c_dev = False\<rparr>"
proof -
  have e: "is_empty (parse_or_empty (\<lambda>s. Inl ParseFailure) ''>=x'')"
    by (simp add: parse_or_empty_def Interval_empty_def is_empty_def)
  show ?thesis
    using e empty_interval_descriptors[OF e]
    by (simp add: parse_or_empty_def Interval_empty_def)
qed

text \<open>
  Claim C7. For a non-empty Interval the \<open>major\<close> descriptor is computed without failure and
  is true exactly when the Version \<open>(\<infinity>, 0, 0)\<close> is a member of the interval.
\<close>

theorem major_descriptor_sentinel:
  "\<not> is_empty i \<Longrightarrow> \<exists>d. describe i = Inr d \<and> c_major d = contains i (Version \<infinity> 0 0)"
  by (cases i) (auto simp: describe_def is_empty_def lowest_bound_def)

theorem major_descriptor_sentinel_witness:
  "\<not> is_empty [(Version 1 0 0, Unbounded)] \<and>
   (\<exists>d. describe [(Version 1 0 0, Unbounded)] = Inr d \<and> c_major d \<and> contains [(Version 1 0 0, Unbounded)] (Version \<infinity> 0 0))"
proof -
  have n: "\<not> is_empty [(Version 1 0 0, Unbounded)]" by (simp add: is_empty_def)
  have c: "contains [(Version 1 0 0, Unbounded)] (Version \<infinity> 0 0)"
    by (simp add: contains_def Version_def)
  show ?thesis using n c major_descriptor_sentinel[OF n] by auto
qed

section \<open>Properties of the release selection\<close>

lemma first_accepted_None: "first_accepted i rs = None \<longleftrightarrow> (\<forall>(r, v) \<in> set rs. \<not> contains i v)"
  by (induction rs) (auto split: if_splits)

lemma first_accepted_Some:
  "first_accepted i rs = Some k \<Longrightarrow> \<exists>(r, v) \<in> set rs. rank r = k \<and> contains i v"
  by (induction rs) (auto split: if_splits)

lemma first_accepted_highest:
  "sorted (map (\<lambda>(r, v). - rank r) rs) \<Longrightarrow> first_accepted i rs = Some k \<Longrightarrow>
   (r, v) \<in> set rs \<Longrightarrow> contains i v \<Longrightarrow> rank r \<le> k"
proof (induction rs)
  case Nil
  then show ?case by simp
next
  case (Cons a rs)
  obtain r0 v0 where a: "a = (r0, v0)" by (cases a)
  show ?case
  proof (cases "contains i v0")
    case True
    with Cons.prems a have "k = rank r0" by simp
    moreover have "rank r \<le> rank r0"
      using Cons.prems(1,3) a by auto
    ultimately show ?thesis by simp
  next
    case False
    with Cons.prems a have "first_accepted i rs = Some k" "(r, v) \<in> set rs" "sorted (map (\<lambda>(r, v). - rank r) rs)"
      by auto
    then show ?thesis using Cons.IH Cons.prems(4) by blast
  qed
qed

lemma sorted_target_releases:
  "sorted (map (\<lambda>(r, v). - rank r) (target_releases tv df target))"
  unfolding target_releases_def by (rule sorted_sort_key)

lemma set_target_releases:
  "set (target_releases tv df target) = (\<lambda>r. (r, tv (version r))) ` {r \<in> set df. package r = target}"
  unfolding target_releases_def by auto

lemma contains_empty: "is_empty i \<Longrightarrow> \<not> contains i v"
  by (simp add: is_empty_def contains_def)

lemma example_selected:
  "selected example_version example_required ''left-pad'' example_interval = Some 3"
  by (simp add: selected_def target_releases_def example_required_def example_version_def
      example_interval_def contains_def Version_def)

lemma example_selected_wide:
  "selected example_version example_required ''left-pad'' (widen_upper example_interval) = Some 4"
  by (simp add: selected_def target_releases_def example_required_def example_version_def
      example_interval_def contains_def Version_def widen_upper_def)

text \<open>
  Claim C4. For a target package and a constraint interval, \<open>selected\<close> is the highest rank
  among the target's releases whose Version the interval contains, and is absent when no
  release is contained; in particular it is absent for the empty interval.
\<close>

theorem selected_highest_accepted:
  "selected tv df target i =
     (if accepted_ranks tv df target i = {} then None
      else Some (Max (accepted_ranks tv df target i)))
   \<and> (is_empty i \<longrightarrow> selected tv df target i = None)"
proof -
  let ?rs = "target_releases tv df target"
  let ?A = "accepted_ranks tv df target i"
  have fin: "finite ?A" by (simp add: accepted_ranks_def)
  have main: "selected tv df target i = (if ?A = {} then None else Some (Max ?A))"
  proof (cases "first_accepted i ?rs")
    case None
    then have "\<forall>(r, v) \<in> set ?rs. \<not> contains i v" by (simp add: first_accepted_None)
    then have "?A = {}" by (auto simp: accepted_ranks_def set_target_releases)
    with None show ?thesis by (simp add: selected_def)
  next
    case (Some k)
    from first_accepted_Some[OF Some] have kin: "k \<in> ?A"
      by (auto simp: accepted_ranks_def set_target_releases)
    have "x \<le> k" if "x \<in> ?A" for x
    proof -
      from that obtain r where r: "r \<in> set df" "package r = target" "contains i (tv (version r))" "x = rank r"
        by (auto simp: accepted_ranks_def)
      then have "(r, tv (version r)) \<in> set ?rs" by (simp add: set_target_releases)
      from first_accepted_highest[OF sorted_target_releases Some this r(3)] r(4) show ?thesis by simp
    qed
    with kin fin have "Max ?A = k" by (intro Max_eqI) auto
    with kin Some show ?thesis by (auto simp: selected_def)
  qed
  have "is_empty i \<Longrightarrow> ?A = {}" by (simp add: accepted_ranks_def contains_empty)
  with main show ?thesis by simp
qed

theorem selected_highest_accepted_witness:
  "accepted_ranks example_version example_required ''left-pad'' example_interval \<noteq> {} \<and>
   Max (accepted_ranks example_version example_required ''left-pad'' example_interval) = 3 \<and>
   selected example_version example_required ''left-pad'' example_interval = Some 3 \<and>
   is_empty [] \<and> selected example_version example_required ''left-pad'' [] = None"
  using selected_highest_accepted[of example_version example_required "''left-pad''" example_interval]
    selected_highest_accepted[of example_version example_required "''left-pad''" "[]"]
    example_selected
  by (auto simp: is_empty_def split: if_splits)

lemma first_accepted_mono:
  assumes sub: "\<And>v. contains i1 v \<Longrightarrow> contains i2 v"
  shows "sorted (map (\<lambda>(r, v). - rank r) rs) \<Longrightarrow> first_accepted i1 rs = Some k1 \<Longrightarrow>
         \<exists>k2. first_accepted i2 rs = Some k2 \<and> k1 \<le> k2"
proof (induction rs)
  case Nil
  then show ?case by simp
next
  case (Cons a rs)
  obtain r0 v0 where a: "a = (r0, v0)" by (cases a)
  show ?case
  proof (cases "contains i2 v0")
    case True
    from first_accepted_Some[OF Cons.prems(2)] obtain r v where
      rv: "(r, v) \<in> set (a # rs)" "rank r = k1" by auto
    with Cons.prems(1) a have "k1 \<le> rank r0" by auto
    with True a show ?thesis by simp
  next
    case False
    then have "\<not> contains i1 v0" using sub by blast
    with Cons.prems a have "first_accepted i1 rs = Some k1" "sorted (map (\<lambda>(r, v). - rank r) rs)"
      by auto
    with Cons.IH False a show ?thesis by simp
  qed
qed

lemma in_range_unbounded: "in_range v (lo, hi) \<Longrightarrow> in_range v (lo, Unbounded)"
  by (cases hi) auto

lemma contains_widen_upper: "contains i v \<Longrightarrow> contains (widen_upper i) v"
proof (cases i rule: rev_cases)
  case Nil
  then show "contains i v \<Longrightarrow> contains (widen_upper i) v" by (simp add: widen_upper_def)
next
  case (snoc ys y)
  assume c: "contains i v"
  obtain lo hi where y: "y = (lo, hi)" by (cases y)
  have w: "widen_upper i = ys @ [(lo, Unbounded)]"
    using snoc y by (cases ys) (simp_all add: widen_upper_def)
  from c snoc y have "list_ex (in_range v) ys \<or> in_range v (lo, hi)"
    by (simp add: contains_def)
  then have "list_ex (in_range v) ys \<or> in_range v (lo, Unbounded)"
    using in_range_unbounded by blast
  then show "contains (widen_upper i) v"
    using w by (simp add: contains_def)
qed

text \<open>
  Claim C6. For a fixed release set, when an interval selects a rank, the interval with its
  upper bound widened to unbounded selects a rank too, and that rank is at least as high.
\<close>

theorem selected_widen_upper:
  "selected tv df target i = Some k1 \<Longrightarrow>
   \<exists>k2. selected tv df target (widen_upper i) = Some k2 \<and> k1 \<le> k2"
  unfolding selected_def
  using first_accepted_mono[of i "widen_upper i", OF contains_widen_upper sorted_target_releases] by blast

theorem selected_widen_upper_witness:
  "selected example_version example_required ''left-pad'' example_interval = Some 3 \<and>
   selected example_version example_required ''left-pad'' (widen_upper example_interval) = Some 4"
  using selected_widen_upper[OF example_selected] example_selected example_selected_wide
  by simp

section \<open>Properties of the pandas operations\<close>

lemmas pandas_defs = shift1_def isnull_def sub_nan_def clip01_def astype_bool_def row_max_def idxmax_def
  expanding_max_def cumsum_def merge_left_def

lemma length_shift1: "length (shift1 xs) = length xs"
  by (cases xs) (simp_all add: shift1_def)



lemma length_running_max: "length (running_max m xs) = length xs"
  by (induction xs arbitrary: m) simp_all

lemma length_expanding_max: "length (expanding_max xs) = length xs"
  by (cases xs) (simp_all add: expanding_max_def length_running_max)

lemma running_max_nth:
  "i < length xs \<Longrightarrow> running_max m xs ! i = Max (insert m (set (take (Suc i) xs)))"
proof (induction xs arbitrary: m i)
  case Nil
  then show ?case by simp
next
  case (Cons x xs)
  show ?case
  proof (cases i)
    case 0
    then show ?thesis by simp
  next
    case (Suc j)
    with Cons.prems have j: "j < length xs" by simp
    have "running_max m (x # xs) ! i = Max (insert (max m x) (set (take (Suc j) xs)))"
      using Suc Cons.IH[OF j] by simp
    also have "\<dots> = Max (insert m (insert x (set (take (Suc j) xs))))"
    proof -
      have "set (take (Suc j) xs) \<noteq> {}" using j by (cases xs) simp_all
      then show ?thesis by (simp add: max.assoc)
    qed
    finally show ?thesis using Suc by simp
  qed
qed

lemma expanding_max_nth:
  assumes "i < length xs"
  shows "expanding_max xs ! i = Max (set (take (Suc i) xs))"
proof (cases xs)
  case Nil
  with assms show ?thesis by simp
next
  case (Cons x ys)
  show ?thesis
  proof (cases i)
    case 0
    with Cons show ?thesis by (simp add: expanding_max_def)
  next
    case (Suc j)
    with assms Cons have "j < length ys" by simp
    from running_max_nth[OF this, of x] Suc Cons show ?thesis
      by (simp add: expanding_max_def)
  qed
qed

lemma below_running_max:
  assumes "i < length (xs :: int list)"
  shows "xs ! i < Max (set (take (Suc i) xs)) \<longleftrightarrow> 0 < i \<and> xs ! i < Max (set (take i xs))"
proof (cases i)
  case 0
  with assms show ?thesis by (cases xs) simp_all
next
  case (Suc j)
  have t: "take (Suc i) xs = take i xs @ [xs ! i]"
    using assms by (rule take_Suc_conv_app_nth)
  have ne: "set (take i xs) \<noteq> {}" using Suc assms by (cases xs) simp_all
  have "Max (set (take (Suc i) xs)) = max (xs ! i) (Max (set (take i xs)))"
    unfolding t using ne by simp
  then show ?thesis using Suc by auto
qed

lemma cumsum_from_ones: "cumsum_from s (map (\<lambda>_. 1) d) = map (\<lambda>i. s + 1 + int i) [0..<length d]"
proof (induction d arbitrary: s)
  case Nil
  then show ?case by simp
next
  case (Cons a d)
  have "[0..<length (a # d)] = 0 # map Suc [0..<length d]"
    by (simp add: upt_conv_Cons map_Suc_upt del: upt_Suc)
  then show ?case by (simp add: Cons.IH comp_def add.assoc add.commute)
qed

lemma ones_cumsum_eq: "ones_cumsum d = map (\<lambda>i. int i + 1) [0..<length d]"
  by (simp add: ones_cumsum_def cumsum_def cumsum_from_ones add.commute)

lemma ones_cumsum_upt: "ones_cumsum d = map int [1..<Suc (length d)]"
proof -
  have "map int [1..<Suc (length d)] = map int (map Suc [0..<length d])"
    by (simp add: map_Suc_upt del: upt_Suc)
  then show ?thesis by (simp add: ones_cumsum_eq comp_def add.commute del: upt_Suc)
qed

lemma length_ones_cumsum: "length (ones_cumsum d) = length d"
  by (simp add: ones_cumsum_eq)

lemma zip_ones_cumsum: "zip d (ones_cumsum d) = map (\<lambda>i. (d ! i, int i + 1)) [0..<length d]"
  by (rule nth_equalityI) (simp_all add: ones_cumsum_eq)

lemma merge_left_mem:
  assumes "(l, x) \<in> set (merge_left left key right rkey)"
  shows "l \<in> set left \<and> (\<forall>r. x = Some r \<longrightarrow> r \<in> set right \<and> Some (rkey r) = key l)"
proof -
  from assms obtain l' where l': "l' \<in> set left"
    "(l, x) \<in> set (case filter (\<lambda>r. Some (rkey r) = key l') right of
                      [] \<Rightarrow> [(l', None)] | m # ms \<Rightarrow> map (\<lambda>r. (l', Some r)) (m # ms))"
    by (auto simp: merge_left_def)
  show ?thesis
  proof (cases "filter (\<lambda>r. Some (rkey r) = key l') right")
    case Nil
    with l' show ?thesis by simp
  next
    case (Cons m ms)
    with l' have "l = l'" "\<exists>r \<in> set (m # ms). x = Some r" by auto
    moreover have "set (m # ms) = {r \<in> set right. Some (rkey r) = key l'}"
      using Cons by (metis set_filter)
    ultimately show ?thesis using l'(1) by auto
  qed
qed

lemma filter_key_distinct:
  "distinct (map rkey right) \<Longrightarrow>
   filter (\<lambda>r. Some (rkey r) = k) right =
     (case find (\<lambda>r. Some (rkey r) = k) right of None \<Rightarrow> [] | Some m \<Rightarrow> [m])"
proof (induction right)
  case Nil
  then show ?case by simp
next
  case (Cons x xs)
  show ?case
  proof (cases "Some (rkey x) = k")
    case True
    have "rkey y \<noteq> rkey x" if "y \<in> set xs" for y
      using Cons.prems that by (metis distinct.simps(2) imageI list.simps(9) set_map)
    then have "filter (\<lambda>r. Some (rkey r) = k) xs = []"
      using True by (auto simp: filter_empty_conv)
    with True show ?thesis by simp
  next
    case False
    with Cons show ?thesis by simp
  qed
qed

lemma merge_left_distinct:
  assumes "distinct (map rkey right)"
  shows "merge_left left key right rkey = map (\<lambda>l. (l, find (\<lambda>r. Some (rkey r) = key l) right)) left"
proof -
  have "(case filter (\<lambda>r. Some (rkey r) = key l) right of
           [] \<Rightarrow> [(l, None)] | m # ms \<Rightarrow> map (\<lambda>r. (l, Some r)) (m # ms))
        = [(l, find (\<lambda>r. Some (rkey r) = key l) right)]" for l
    unfolding filter_key_distinct[OF assms]
    by (cases "find (\<lambda>r. Some (rkey r) = key l) right") simp_all
  then show ?thesis
    by (simp add: merge_left_def)
qed

lemma find_mapped: "find P (map f xs) = map_option f (find (\<lambda>x. P (f x)) xs)"
  by (induction xs) simp_all

lemma find_distinct_key:
  "distinct (map f xs) \<Longrightarrow> x \<in> set xs \<Longrightarrow> find (\<lambda>y. f y = f x) xs = Some x"
proof (induction xs)
  case Nil
  then show ?case by simp
next
  case (Cons a xs)
  show ?case
  proof (cases "a = x")
    case True
    then show ?thesis by simp
  next
    case False
    with Cons.prems have xin: "x \<in> set xs" by simp
    then have "f x \<in> f ` set xs" by (rule imageI)
    with Cons.prems(1) have "f a \<noteq> f x" by auto
    with Cons.IH Cons.prems(1) xin show ?thesis by simp
  qed
qed

section \<open>Properties of the rank assignment\<close>

lemma rank_group_eq:
  "rank_group grp = map (\<lambda>((r, k), n). with_ranks r k n) (zip (ranked_by_date grp) (ones_cumsum (ranked_by_date grp)))"
  by (simp add: rank_group_def ranked_by_date_def ranked_by_version_def Let_def)

lemma length_ranked_by_version: "length (ranked_by_version grp) = length grp"
  by (simp add: ranked_by_version_def Let_def length_ones_cumsum)

lemma length_ranked_by_date: "length (ranked_by_date grp) = length grp"
  by (simp add: ranked_by_date_def length_ranked_by_version)

lemma map_fst_ranked_by_version:
  "map fst (ranked_by_version grp) = sort_key (\<lambda>r. (major r, minor r, patch r)) grp"
  by (simp add: ranked_by_version_def Let_def length_ones_cumsum)

lemma map_snd_ranked_by_version:
  "map snd (ranked_by_version grp) = map int [1..<Suc (length grp)]"
  by (simp add: ranked_by_version_def Let_def length_ones_cumsum ones_cumsum_upt del: upt_Suc)

lemma ranked_by_version_ordered:
  assumes "(a, ka) \<in> set (ranked_by_version grp)" "(b, kb) \<in> set (ranked_by_version grp)" "ka < kb"
  shows "(major a, minor a, patch a) \<le> (major b, minor b, patch b)"
proof -
  let ?bv = "sort_key (\<lambda>r. (major r, minor r, patch r)) grp"
  have rv: "ranked_by_version grp = map (\<lambda>i. (?bv ! i, int i + 1)) [0..<length ?bv]"
    by (simp add: ranked_by_version_def Let_def zip_ones_cumsum)
  from assms(1) rv obtain i where i: "i < length ?bv" "a = ?bv ! i" "ka = int i + 1" by auto
  from assms(2) rv obtain j where j: "j < length ?bv" "b = ?bv ! j" "kb = int j + 1" by auto
  from assms(3) i j have "i \<le> j" by simp
  have "sorted (map (\<lambda>r. (major r, minor r, patch r)) ?bv)" by (rule sorted_sort_key)
  from sorted_nth_mono[OF this, of i j] \<open>i \<le> j\<close> i j show ?thesis by simp
qed

lemma rank_group_nth:
  assumes "i < length grp"
  shows "rank_group grp ! i = with_ranks (fst (ranked_by_date grp ! i)) (snd (ranked_by_date grp ! i)) (int i + 1)"
  using assms
  by (simp add: rank_group_eq length_ones_cumsum length_ranked_by_date ones_cumsum_eq split_beta)

lemma length_rank_group: "length (rank_group grp) = length grp"
  by (simp add: rank_group_eq length_ones_cumsum length_ranked_by_date)

lemma map_rank_rank_group: "map rank (rank_group grp) = map snd (ranked_by_date grp)"
  by (rule nth_equalityI)
     (simp_all add: length_rank_group length_ranked_by_date rank_group_nth with_ranks_def)

lemma map_rank_date_rank_group: "map rank_date (rank_group grp) = map int [1..<Suc (length grp)]"
  by (rule nth_equalityI)
     (simp_all add: length_rank_group rank_group_nth with_ranks_def del: upt_Suc)

lemma map_key_rank_group:
  "map (\<lambda>r. (date r, rank r)) (rank_group grp) = map (\<lambda>(r, k). (date r, k)) (ranked_by_date grp)"
  by (rule nth_equalityI)
     (simp_all add: length_rank_group length_ranked_by_date rank_group_nth with_ranks_def split_beta)

lemma truncate_with_ranks: "raw_release.truncate (with_ranks r k n) = r"
  by (simp add: with_ranks_def raw_release.truncate_def)

lemma map_truncate_rank_group: "map raw_release.truncate (rank_group grp) = map fst (ranked_by_date grp)"
  by (rule nth_equalityI)
     (simp_all add: length_rank_group length_ranked_by_date rank_group_nth truncate_with_ranks)

lemma mset_ranked_by_date: "mset (ranked_by_date grp) = mset (ranked_by_version grp)"
  by (simp add: ranked_by_date_def)

lemma rank_group_example:
  "map (\<lambda>x. (version x, rank x, rank_date x)) (rank_group example_raw) =
     [(''1.0.0'', 1, 1), (''2.0.0'', 3, 2), (''1.0.1'', 2, 3), (''2.1.0'', 4, 4)]"
  by (simp add: example_raw_def rank_group_def ones_cumsum_def with_ranks_def pandas_defs)

text \<open>
  Claim C9. For a package group of \<open>N\<close> releases, \<open>rank_group\<close> returns the same releases,
  each with its two ranks. The version ranks are the numbers 1 to \<open>N\<close>, each used once, and a
  release with a lower rank never has a greater (major, minor, patch). The date ranks are
  1 to \<open>N\<close> along the output, which is strictly ascending by date and, on equal dates, by
  version rank.
\<close>

theorem rank_assignment:
  "length (rank_group grp) = length grp \<and>
   mset (map raw_release.truncate (rank_group grp)) = mset grp \<and>
   distinct (map rank (rank_group grp)) \<and>
   set (map rank (rank_group grp)) = {1..int (length grp)} \<and>
   (\<forall>a \<in> set (rank_group grp). \<forall>b \<in> set (rank_group grp).
      rank a < rank b \<longrightarrow> (major a, minor a, patch a) \<le> (major b, minor b, patch b)) \<and>
   map rank_date (rank_group grp) = map int [1..<Suc (length grp)] \<and>
   sorted_wrt (<) (map (\<lambda>r. (date r, rank r)) (rank_group grp))"
proof -
  let ?out = "rank_group grp"
  have m: "mset (map rank ?out) = mset (map int [1..<Suc (length grp)])"
    unfolding map_rank_rank_group
    by (metis map_snd_ranked_by_version mset_map mset_ranked_by_date)
  have d0: "distinct (map int [1..<Suc (length grp)])"
    by (simp add: distinct_map inj_on_def del: upt_Suc)
  have dist: "distinct (map rank ?out)"
    using m d0 by (metis mset_eq_imp_distinct_iff)
  have "set (map rank ?out) = set (map int [1..<Suc (length grp)])"
    using m by (metis set_mset_mset)
  also have "\<dots> = {1..int (length grp)}"
  proof -
    have "x \<in> int ` {1..<Suc (length grp)}" if "1 \<le> x" "x \<le> int (length grp)" for x
    proof -
      have "x = int (nat x)" using that by simp
      moreover have "nat x \<in> {1..<Suc (length grp)}" using that by auto
      ultimately show ?thesis by (rule image_eqI)
    qed
    then have "int ` {1..<Suc (length grp)} = {1..int (length grp)}" by auto
    then show ?thesis by (simp del: upt_Suc)
  qed
  finally have st: "set (map rank ?out) = {1..int (length grp)}" .
  have ms: "mset (map raw_release.truncate ?out) = mset grp"
    unfolding map_truncate_rank_group
    by (metis map_fst_ranked_by_version mset_map mset_ranked_by_date mset_sort)
  have ord: "(major a, minor a, patch a) \<le> (major b, minor b, patch b)"
    if "a \<in> set ?out" "b \<in> set ?out" "rank a < rank b" for a b
  proof -
    have mem: "(raw_release.truncate x, rank x) \<in> set (ranked_by_version grp)" if "x \<in> set ?out" for x
    proof -
      from that obtain i where i: "i < length grp" "x = ?out ! i"
        by (auto simp: in_set_conv_nth length_rank_group)
      then have "raw_release.truncate x = fst (ranked_by_date grp ! i)"
        by (simp add: rank_group_nth truncate_with_ranks)
      moreover from i have "rank x = snd (ranked_by_date grp ! i)"
        by (simp add: rank_group_nth with_ranks_def)
      ultimately have "(raw_release.truncate x, rank x) = ranked_by_date grp ! i"
        by simp
      then have "(raw_release.truncate x, rank x) \<in> set (ranked_by_date grp)"
        using i(1) by (metis length_ranked_by_date nth_mem)
      then show ?thesis by (metis mset_ranked_by_date set_mset_mset)
    qed
    from ranked_by_version_ordered[OF mem[OF that(1)] mem[OF that(2)] that(3)]
    show ?thesis by (simp add: raw_release.truncate_def)
  qed
  have srt: "sorted (map (\<lambda>r. (date r, rank r)) ?out)"
    unfolding map_key_rank_group ranked_by_date_def by (rule sorted_sort_key)
  have "distinct (map (\<lambda>r. (date r, rank r)) ?out)"
    using dist by (auto simp: distinct_map inj_on_def)
  with srt have strict: "sorted_wrt (<) (map (\<lambda>r. (date r, rank r)) ?out)"
    by (simp add: strict_sorted_iff)
  show ?thesis
    using length_rank_group ms dist st ord map_rank_date_rank_group strict by blast
qed

theorem rank_assignment_witness:
  "map (\<lambda>x. (version x, rank x, rank_date x)) (rank_group example_raw) =
     [(''1.0.0'', 1, 1), (''2.0.0'', 3, 2), (''1.0.1'', 2, 3), (''2.1.0'', 4, 4)] \<and>
   set (map rank (rank_group example_raw)) = {1..4} \<and>
   map rank_date (rank_group example_raw) = map int [1..<Suc 4] \<and>
   sorted_wrt (<) (map (\<lambda>r. (date r, rank r)) (rank_group example_raw))"
proof -
  have "length example_raw = 4" by (simp add: example_raw_def)
  with rank_assignment[of example_raw] rank_group_example show ?thesis by simp
qed

text \<open>
  What the classification receives from the rank assignment: unique ranks, and strictly
  ascending versions along the rank order when the group holds no version twice.
\<close>

lemma rank_group_member:
  assumes "x \<in> set (rank_group raw)"
  shows "(raw_release.truncate x, rank x) \<in> set (ranked_by_version raw)"
proof -
  from assms obtain i where i: "i < length raw" "x = rank_group raw ! i"
    by (auto simp: in_set_conv_nth length_rank_group)
  then have "raw_release.truncate x = fst (ranked_by_date raw ! i)"
    by (simp add: rank_group_nth truncate_with_ranks)
  moreover from i have "rank x = snd (ranked_by_date raw ! i)"
    by (simp add: rank_group_nth with_ranks_def)
  ultimately have "(raw_release.truncate x, rank x) = ranked_by_date raw ! i"
    by simp
  moreover have "ranked_by_date raw ! i \<in> set (ranked_by_date raw)"
    using i(1) by (simp add: length_ranked_by_date)
  ultimately have "(raw_release.truncate x, rank x) \<in> set (ranked_by_date raw)"
    by simp
  moreover have "set (ranked_by_date raw) = set (ranked_by_version raw)"
    by (simp add: ranked_by_date_def)
  ultimately show ?thesis by simp
qed

lemma distinct_rank_rank_group: "distinct (map rank (rank_group raw))"
proof -
  have "mset (map snd (ranked_by_date raw)) = mset (map snd (ranked_by_version raw))"
    by (simp add: mset_ranked_by_date)
  then have m: "mset (map rank (rank_group raw)) = mset (map int [1..<Suc (length raw)])"
    by (simp only: map_rank_rank_group map_snd_ranked_by_version)
  have d: "distinct (map int [1..<Suc (length raw)])"
    by (simp add: distinct_map inj_on_def del: upt_Suc)
  from mset_eq_imp_distinct_iff[OF m] d show ?thesis by simp
qed

lemma version_key_truncate:
  "(major (raw_release.truncate x), minor (raw_release.truncate x), patch (raw_release.truncate x))
     = (major x, minor x, patch x)"
  by (simp add: raw_release.truncate_def)

lemma rank_group_ascending_versions:
  assumes "distinct (map (\<lambda>r. (major r, minor r, patch r)) raw)"
  shows "sorted_wrt (<) (map (\<lambda>r. (major r, minor r, patch r)) (sort_key rank (rank_group raw)))"
proof -
  let ?out = "rank_group raw"
  let ?s = "sort_key rank ?out"
  have t: "mset (map raw_release.truncate ?out) = mset raw"
  proof -
    have "mset (map fst (ranked_by_date raw)) = mset (map fst (ranked_by_version raw))"
      by (simp add: mset_ranked_by_date)
    then show ?thesis
      by (simp only: map_truncate_rank_group map_fst_ranked_by_version mset_sort)
  qed
  have e1: "map (\<lambda>r. (major r, minor r, patch r)) ?out =
        map (\<lambda>r. (major r, minor r, patch r)) (map raw_release.truncate ?out)"
    by (simp add: version_key_truncate)
  have e2: "mset (map (\<lambda>r. (major r, minor r, patch r)) (map raw_release.truncate ?out)) =
            mset (map (\<lambda>r. (major r, minor r, patch r)) raw)"
    using arg_cong[OF t, of "image_mset (\<lambda>r. (major r, minor r, patch r))"]
    by (simp add: multiset.map_comp)
  have "mset (map (\<lambda>r. (major r, minor r, patch r)) ?out) =
                mset (map (\<lambda>r. (major r, minor r, patch r)) raw)"
    unfolding e1 by (rule e2)
  moreover have "mset (map (\<lambda>r. (major r, minor r, patch r)) ?s) =
                 mset (map (\<lambda>r. (major r, minor r, patch r)) ?out)"
    by simp
  ultimately have mv: "mset (map (\<lambda>r. (major r, minor r, patch r)) ?s) =
                       mset (map (\<lambda>r. (major r, minor r, patch r)) raw)"
    by (rule trans[rotated])
  from mset_eq_imp_distinct_iff[OF mv] assms
  have dv: "distinct (map (\<lambda>r. (major r, minor r, patch r)) ?s)" by simp
  have mr: "mset (map rank ?s) = mset (map rank ?out)" by simp
  from mset_eq_imp_distinct_iff[OF mr] distinct_rank_rank_group[of raw]
  have dr: "distinct (map rank ?s)" by simp
  have sr: "sorted (map rank ?s)" by (rule sorted_sort_key)
  have step: "(major (?s ! i), minor (?s ! i), patch (?s ! i))
              < (major (?s ! j), minor (?s ! j), patch (?s ! j))"
    if ij: "i < j" "j < length ?s" for i j
  proof -
    have il: "i < length ?s" using ij by simp
    have "map rank ?s ! i \<le> map rank ?s ! j"
      using sorted_nth_mono[OF sr, of i j] ij by simp
    moreover have "map rank ?s ! i \<noteq> map rank ?s ! j"
    proof -
      have "i < length (map rank ?s)" "j < length (map rank ?s)" using il ij by simp_all
      from nth_eq_iff_index_eq[OF dr this] ij(1) show ?thesis by simp
    qed
    ultimately have lt: "rank (?s ! i) < rank (?s ! j)" using ij il by simp
    have "?s ! i \<in> set ?s" using il by (rule nth_mem)
    then have mi: "?s ! i \<in> set ?out" by simp
    have "?s ! j \<in> set ?s" using ij(2) by (rule nth_mem)
    then have mj: "?s ! j \<in> set ?out" by simp
    from ranked_by_version_ordered[OF rank_group_member[OF mi] rank_group_member[OF mj] lt]
    have le: "(major (?s ! i), minor (?s ! i), patch (?s ! i))
              \<le> (major (?s ! j), minor (?s ! j), patch (?s ! j))"
      by (simp only: version_key_truncate)
    have "map (\<lambda>r. (major r, minor r, patch r)) ?s ! i \<noteq> map (\<lambda>r. (major r, minor r, patch r)) ?s ! j"
    proof -
      have "i < length (map (\<lambda>r. (major r, minor r, patch r)) ?s)"
        "j < length (map (\<lambda>r. (major r, minor r, patch r)) ?s)" using il ij by simp_all
      from nth_eq_iff_index_eq[OF dv this] ij(1) show ?thesis by simp
    qed
    then have "(major (?s ! i), minor (?s ! i), patch (?s ! i))
               \<noteq> (major (?s ! j), minor (?s ! j), patch (?s ! j))"
      using ij il by simp
    with le show ?thesis by (rule order.not_eq_order_implies_strict[rotated])
  qed
  show ?thesis
    unfolding sorted_wrt_iff_nth_less
  proof (intro allI impI)
    fix i j assume a: "i < j"
      "j < length (map (\<lambda>r. (major r, minor r, patch r)) ?s)"
    then have j: "j < length ?s" by simp
    with a(1) have i: "i < length ?s" by simp
    from step[OF a(1) j] i j
    show "map (\<lambda>r. (major r, minor r, patch r)) ?s ! i < map (\<lambda>r. (major r, minor r, patch r)) ?s ! j"
      by simp
  qed
qed

section \<open>Properties of the update kind\<close>

lemma length_delta_column: "length (delta_column c) = length c"
  by (simp add: delta_column_def length_shift1)



lemma length_kind_column: "length (kind_column d) = length d"
  by (simp add: kind_column_def Let_def length_shift1 length_delta_column)



lemma map_fst_assign_kind: "map fst (assign_kind grp) = sort_key rank grp"
  by (simp add: assign_kind_def Let_def length_kind_column)

lemma length_assign_kind: "length (assign_kind grp) = length grp"
  by (simp add: assign_kind_def Let_def length_kind_column)

lemma assign_kind_example:
  "map snd (assign_kind example_history) = [''initial'', ''patch'', ''major'', ''minor'']"
  by (simp add: example_history_def assign_kind_def kind_column_def delta_column_def replace_kind_def pandas_defs)

lemma filter_unique_key:
  "distinct (map f xs) \<Longrightarrow> k \<in> set xs \<Longrightarrow> filter (\<lambda>x. f k = f x) xs = [k]"
proof (induction xs)
  case Nil
  then show ?case by simp
next
  case (Cons a xs)
  show ?case
  proof (cases "a = k")
    case True
    have "f y \<noteq> f k" if "y \<in> set xs" for y
      using Cons.prems(1) True that by (metis distinct.simps(2) imageI list.simps(9) set_map)
    then have "\<forall>x \<in> set xs. f k \<noteq> f x" by metis
    then have "filter (\<lambda>x. f k = f x) xs = []"
      by (simp add: filter_empty_conv)
    with True show ?thesis by simp
  next
    case False
    with Cons.prems have kin: "k \<in> set xs" by simp
    then have "f k \<in> f ` set xs" by (rule imageI)
    with Cons.prems(1) have "f a \<noteq> f k" by auto
    with Cons.IH Cons.prems(1) kin show ?thesis by simp
  qed
qed

lemma rank_order_unique:
  assumes "distinct (map rank grp)" and "mset d = mset grp" and "sorted (map rank d)"
  shows "sort_key rank grp = d"
proof (rule properties_for_sort_key[OF assms(2) _ assms(3)])
  fix k assume k: "k \<in> set d"
  have dd: "distinct (map rank d)"
    using assms(1,2) by (metis mset_map mset_eq_imp_distinct_iff)
  have "k \<in> set grp" using k assms(2) by (metis set_mset_mset)
  from filter_unique_key[OF dd k] filter_unique_key[OF assms(1) this]
  show "filter (\<lambda>x. rank k = rank x) d = filter (\<lambda>x. rank k = rank x) grp" by simp
qed




section \<open>Properties of the backport detection and attribution\<close>

lemma length_chronological: "length (chronological d) = length d"
  by (simp add: chronological_def)

lemma length_timeline: "length (timeline grp) = length grp"
  by (simp add: timeline_def length_chronological length_assign_kind)

lemma mset_timeline: "mset (timeline grp) = mset grp"
proof -
  have "mset (timeline grp) = mset (map fst (assign_kind grp))"
    by (simp add: timeline_def chronological_def)
  then show ?thesis by (simp add: map_fst_assign_kind)
qed

lemma set_timeline: "set (timeline grp) = set grp"
  by (metis mset_timeline set_mset_mset)

lemma sorted_timeline: "sorted (map (\<lambda>r. (date r, rank r)) (timeline grp))"
proof -
  have "map (\<lambda>r. (date r, rank r)) (timeline grp) =
        map (\<lambda>(r, k). (date r, rank r)) (chronological (assign_kind grp))"
    by (simp add: timeline_def split_beta comp_def)
  then show ?thesis by (simp add: chronological_def)
qed

lemma distinct_rank_timeline: "distinct (map rank grp) \<Longrightarrow> distinct (map rank (timeline grp))"
  by (metis mset_timeline mset_map mset_eq_imp_distinct_iff)

lemma timeline_earlier_date:
  assumes "i < length grp" "p \<in> set (take (Suc i) (timeline grp))"
  shows "date p \<le> date (timeline grp ! i)"
proof -
  let ?tl = "timeline grp"
  from assms(2) obtain j where j: "j < length (take (Suc i) ?tl)" "p = take (Suc i) ?tl ! j"
    by (auto simp: in_set_conv_nth)
  then have ji: "j \<le> i" and p: "p = ?tl ! j" by simp_all
  have il: "i < length (map (\<lambda>r. (date r, rank r)) ?tl)"
    using assms(1) by (simp add: length_timeline)
  from sorted_nth_mono[OF sorted_timeline ji il]
  have "(date (?tl ! j), rank (?tl ! j)) \<le> (date (?tl ! i), rank (?tl ! i))"
    using ji il by simp
  then show ?thesis unfolding p by (auto simp: less_eq_prod_def)
qed

lemma length_detect_backported: "length (detect_backported d0) = length d0"
  by (simp add: detect_backported_def Let_def length_expanding_max length_chronological)

lemma detect_backported_nth:
  assumes "i < length d0"
  shows "detect_backported d0 ! i =
           (chronological d0 ! i,
            if major (fst (chronological d0 ! i)) < Max (set (take (Suc i) (map (\<lambda>(r, k). major r) (chronological d0))))
            then Some (Max (set (take (Suc i) (map (\<lambda>(r, k). rank r) (chronological d0)))))
            else None)"
  using assms
  by (simp add: detect_backported_def Let_def length_expanding_max length_chronological
      expanding_max_nth split_beta)

lemma map_fst_detect_backported: "map fst (detect_backported d0) = chronological d0"
  by (simp add: detect_backported_def Let_def length_expanding_max length_chronological)

lemma detect_flag_nth:
  assumes "i < length grp"
  shows "snd (detect_backported (assign_kind grp) ! i) =
           (if major (timeline grp ! i) < Max (set (map major (take (Suc i) (timeline grp))))
            then Some (Max (set (map rank (take (Suc i) (timeline grp)))))
            else None)"
proof -
  let ?c = "chronological (assign_kind grp)"
  have i: "i < length (assign_kind grp)" "i < length ?c"
    using assms by (simp_all add: length_assign_kind length_chronological)
  have a: "map (\<lambda>(r, k). major r) ?c = map major (timeline grp)"
    by (simp add: timeline_def split_beta comp_def)
  have b: "map (\<lambda>(r, k). rank r) ?c = map rank (timeline grp)"
    by (simp add: timeline_def split_beta comp_def)
  have c: "fst (?c ! i) = timeline grp ! i"
    using i by (simp add: timeline_def)
  show ?thesis
    unfolding detect_backported_nth[OF i(1)] a b c by (simp add: take_map)
qed

lemma closest_release_absent:
  assumes "(r, k, b, bf) \<in> set (closest_release df)" "b = None"
  shows "bf = None"
proof -
  let ?previous = "map (\<lambda>((r, k), b). (date r, rank r)) df"
  let ?nxt = "map (\<lambda>(d, rk). (d, rk - 1)) ?previous"
  let ?m1 = "merge_left df snd ?previous snd"
  let ?m2 = "merge_left ?m1 (\<lambda>(l, p). snd l) ?nxt snd"
  from assms(1) obtain x where x: "x \<in> set ?m2" "(r, k, b, bf) = closest_row x"
    by (auto simp: closest_release_def Let_def)
  obtain r' k' b' p n where xe: "x = ((((r', k'), b'), p), n)"
    by (metis prod.collapse)
  from x(2) xe assms(2) have b': "b' = None" by (simp add: closest_row_def Let_def)
  from x(1) xe have mem: "((((r', k'), b'), p), n) \<in> set ?m2" by simp
  from merge_left_mem[OF mem] b' have n: "n = None" and m1: "(((r', k'), b'), p) \<in> set ?m1"
    by (cases n; simp)+
  from merge_left_mem[OF m1] b' have p: "p = None"
    by (cases p; simp)
  from x(2) xe n p show ?thesis by (simp add: closest_row_def abs_diff_def le_nat_def)
qed

lemma closest_release_distinct:
  assumes "distinct (map (\<lambda>l. rank (fst (fst l))) df)"
  shows "closest_release df =
           map (\<lambda>l. (fst (fst l), snd (fst l), snd l,
                     attribution (map (\<lambda>l. fst (fst l)) df) (fst (fst l)) (snd l))) df"
proof -
  let ?previous = "map (\<lambda>((r, k), b). (date r, rank r)) df"
  let ?nxt = "map (\<lambda>(d, rk). (d, rk - 1)) ?previous"
  let ?rs = "map (\<lambda>l. fst (fst l)) df"
  define P where "P l = map_option (\<lambda>x. (date x, rank x)) (find (\<lambda>x. Some (rank x) = snd l) ?rs)"
    for l :: "(release \<times> string) \<times> int option"
  define N where "N l = map_option (\<lambda>x. (date x, rank x - 1)) (find (\<lambda>x. Some (rank x - 1) = snd l) ?rs)"
    for l :: "(release \<times> string) \<times> int option"
  have sp: "map snd ?previous = map (\<lambda>l. rank (fst (fst l))) df"
    by (simp add: split_beta comp_def)
  have sn: "map snd ?nxt = map (\<lambda>x. x - 1) (map (\<lambda>l. rank (fst (fst l))) df)"
    by (simp add: split_beta comp_def)
  have dp: "distinct (map snd ?previous)" unfolding sp by (rule assms)
  have dn: "distinct (map snd ?nxt)"
    unfolding sn using assms by (simp add: distinct_map inj_on_def)
  have fp: "find (\<lambda>q. Some (snd q) = snd l) ?previous = P l" for l
    by (simp add: P_def find_mapped comp_def case_prod_unfold option.map_comp)
  have fn: "find (\<lambda>q. Some (snd q) = snd l) ?nxt = N l" for l
    by (simp add: N_def find_mapped comp_def case_prod_unfold option.map_comp)
  have m1: "merge_left df snd ?previous snd = map (\<lambda>l. (l, P l)) df"
    unfolding merge_left_distinct[OF dp] fp ..
  have m2: "merge_left (map (\<lambda>l. (l, P l)) df) (\<lambda>(l, p). snd l) ?nxt snd =
            map (\<lambda>l. ((l, P l), N l)) df"
    unfolding merge_left_distinct[OF dn]
    by (rule nth_equalityI) (simp_all add: fn del: map_map)
  have row: "closest_row ((l, P l), N l)
             = (fst (fst l), snd (fst l), snd l, attribution ?rs (fst (fst l)) (snd l))" for l
  proof -
    obtain r k b where l: "l = ((r, k), b)" by (metis prod.collapse)
    show ?thesis
      unfolding l P_def N_def attribution_def closest_row_def Let_def
      by (cases "find (\<lambda>x. Some (rank x) = b) ?rs"; cases "find (\<lambda>x. Some (rank x - 1) = b) ?rs")
         simp_all
  qed
  have "closest_release df = map closest_row (map (\<lambda>l. ((l, P l), N l)) df)"
    unfolding closest_release_def Let_def m1 m2 ..
  also have "\<dots> = map (\<lambda>l. closest_row ((l, P l), N l)) df"
    by (simp only: map_map comp_def)
  also have "\<dots> = map (\<lambda>l. (fst (fst l), snd (fst l), snd l, attribution ?rs (fst (fst l)) (snd l))) df"
    by (simp only: row)
  finally show ?thesis .
qed

lemma truncate_with_classification: "release.truncate (with_classification r k b bf) = r"
  by (simp add: with_classification_def release.truncate_def)

lemma classify_group_distinct:
  assumes "distinct (map rank grp)"
  shows "classify_group grp =
           map (\<lambda>l. with_classification (fst (fst l)) (snd (fst l)) (snd l \<noteq> None)
                      (attribution (timeline grp) (fst (fst l)) (snd l)))
               (detect_backported (assign_kind grp))"
proof -
  let ?df = "detect_backported (assign_kind grp)"
  have rs: "map (\<lambda>l. fst (fst l)) ?df = timeline grp"
  proof -
    have "map (\<lambda>l. fst (fst l)) ?df = map fst (map fst ?df)" by (simp add: comp_def)
    then show ?thesis by (simp only: map_fst_detect_backported timeline_def)
  qed
  have "map (\<lambda>l. rank (fst (fst l))) ?df = map rank (map (\<lambda>l. fst (fst l)) ?df)"
    by (simp add: comp_def)
  then have "distinct (map (\<lambda>l. rank (fst (fst l))) ?df)"
    using distinct_rank_timeline[OF assms] by (simp only: rs)
  from closest_release_distinct[OF this] show ?thesis
    by (simp add: classify_group_def rs comp_def isnull_def)
qed

lemma length_classify_group:
  "distinct (map rank grp) \<Longrightarrow> length (classify_group grp) = length grp"
  by (simp add: classify_group_distinct length_detect_backported length_assign_kind)

lemma classify_group_nth:
  assumes "distinct (map rank grp)" "i < length grp"
  shows "classify_group grp ! i =
           with_classification (timeline grp ! i) (snd (chronological (assign_kind grp) ! i))
             (snd (detect_backported (assign_kind grp) ! i) \<noteq> None)
             (attribution (timeline grp) (timeline grp ! i) (snd (detect_backported (assign_kind grp) ! i)))"
proof -
  have i: "i < length (assign_kind grp)" using assms(2) by (simp add: length_assign_kind)
  then have j: "i < length (chronological (assign_kind grp))" by (simp add: length_chronological)
  have "fst (detect_backported (assign_kind grp) ! i) = chronological (assign_kind grp) ! i"
    using i by (simp add: detect_backported_nth)
  moreover have "timeline grp ! i = fst (chronological (assign_kind grp) ! i)"
    using j by (simp add: timeline_def)
  ultimately show ?thesis
    using i by (simp add: classify_group_distinct[OF assms(1)] length_detect_backported)
qed

lemmas classify_defs = classify_group_def closest_release_def closest_row_def
  detect_backported_def with_classification_def le_nat_def abs_diff_def date_1900_def
  chronological_def assign_kind_def kind_column_def delta_column_def replace_kind_def timeline_def

lemma example_history_facts:
  "distinct (map rank example_history)" "2 < length example_history"
  "0 < length example_history"
  by (simp_all add: example_history_def)

lemma example_history_rows:
  "backported (classify_group example_history ! 2)"
  "backported_from (classify_group example_history ! 2) = Some 4"
  "\<not> backported (classify_group example_history ! 0)"
  by (simp_all add: example_history_def classify_defs pandas_defs)

lemma example_tie_rows:
  "backported (classify_group example_tie ! 2)"
  "backported_from (classify_group example_tie ! 2) = Some 3"
  "date (classify_group example_tie ! 2) = 300"
  "Max (set (map rank (take 3 (timeline example_tie)))) = 3"
  by (simp_all add: example_tie_def classify_defs pandas_defs)

text \<open>
  Claim C1. For a group with unique ranks, the output rows are the releases in chronological
  order (ascending date, then rank), and the row at position \<open>i\<close> is flagged backported
  exactly when some release stands before it and its major is strictly below the maximum
  major of the releases before it.
\<close>

theorem backported_iff_earlier_greater_major:
  assumes "distinct (map rank grp)" and "i < length grp"
  shows "length (classify_group grp) = length grp \<and>
         mset (timeline grp) = mset grp \<and>
         sorted (map (\<lambda>r. (date r, rank r)) (timeline grp)) \<and>
         release.truncate (classify_group grp ! i) = timeline grp ! i \<and>
         (backported (classify_group grp ! i) \<longleftrightarrow>
            0 < i \<and> major (timeline grp ! i) < Max (set (map major (take i (timeline grp)))))"
proof -
  have li: "i < length (map major (timeline grp))" using assms(2) by (simp add: length_timeline)
  have "backported (classify_group grp ! i) \<longleftrightarrow>
        major (timeline grp ! i) < Max (set (map major (take (Suc i) (timeline grp))))"
    by (simp add: classify_group_nth[OF assms] with_classification_def detect_flag_nth[OF assms(2)])
  also have "\<dots> \<longleftrightarrow> map major (timeline grp) ! i < Max (set (take (Suc i) (map major (timeline grp))))"
    using li by (simp add: take_map)
  also have "\<dots> \<longleftrightarrow> 0 < i \<and> map major (timeline grp) ! i < Max (set (take i (map major (timeline grp))))"
    by (rule below_running_max[OF li])
  also have "\<dots> \<longleftrightarrow> 0 < i \<and> major (timeline grp ! i) < Max (set (map major (take i (timeline grp))))"
    using li by (simp add: take_map)
  finally have b: "backported (classify_group grp ! i) \<longleftrightarrow>
      0 < i \<and> major (timeline grp ! i) < Max (set (map major (take i (timeline grp))))" .
  have t: "release.truncate (classify_group grp ! i) = timeline grp ! i"
    by (simp only: classify_group_nth[OF assms] truncate_with_classification)
  show ?thesis
    using length_classify_group[OF assms(1)] mset_timeline sorted_timeline t b by blast
qed

theorem backported_iff_earlier_greater_major_witness:
  "distinct (map rank example_history) \<and> 2 < length example_history \<and>
   version (timeline example_history ! 2) = ''1.0.1'' \<and>
   backported (classify_group example_history ! 2) \<and>
   major (timeline example_history ! 2) < Max (set (map major (take 2 (timeline example_history))))"
proof -
  have v: "version (timeline example_history ! 2) = ''1.0.1''"
    by (simp add: example_history_def classify_defs pandas_defs)
  from backported_iff_earlier_greater_major[OF example_history_facts(1,2)]
    example_history_facts example_history_rows(1) v
  show ?thesis by simp
qed

text \<open>
  Claim C10. A row of the classification output that is not flagged backported has no
  \<open>backported_from\<close> value.
\<close>

theorem backported_from_only_if_backported:
  assumes "x \<in> set (classify_group grp)" and "\<not> backported x"
  shows "backported_from x = None"
proof -
  from assms(1) obtain r k b bf where
    m: "(r, k, b, bf) \<in> set (closest_release (detect_backported (assign_kind grp)))" and
    x: "x = with_classification r k (\<not> isnull b) bf"
    by (auto simp: classify_group_def)
  from x assms(2) have "b = None" by (simp add: with_classification_def isnull_def)
  from closest_release_absent[OF m this] x show ?thesis by (simp add: with_classification_def)
qed

theorem backported_from_only_if_backported_witness:
  "classify_group example_history ! 0 \<in> set (classify_group example_history) \<and>
   \<not> backported (classify_group example_history ! 0) \<and>
   backported_from (classify_group example_history ! 0) = None"
proof -
  have "0 < length (classify_group example_history)"
    using example_history_facts(3) length_classify_group[OF example_history_facts(1)] by simp
  then have m: "classify_group example_history ! 0 \<in> set (classify_group example_history)"
    by (rule nth_mem)
  from backported_from_only_if_backported[OF m example_history_rows(3)] m example_history_rows(3)
  show ?thesis by simp
qed

text \<open>
  Claim C2, as stated, fails on a tie: in \<open>example_tie\<close> the backported release 1.0.1 (date
  300) has the running maximum rank 3, the release of rank 3 is dated 200 and the release of
  rank 4 is dated 400, so both are 100 away, and \<open>backported_from\<close> is 3, not 4.
\<close>

theorem backported_from_tie_counterexample:
  "backported (classify_group example_tie ! 2) \<and>
   Max (set (map rank (take 3 (timeline example_tie)))) = 3 \<and>
   rank (example_tie ! 2) = 3 \<and> rank (example_tie ! 3) = 4 \<and>
   \<bar>date (classify_group example_tie ! 2) - date (example_tie ! 2)\<bar> =
   \<bar>date (classify_group example_tie ! 2) - date (example_tie ! 3)\<bar> \<and>
   backported_from (classify_group example_tie ! 2) = Some 3 \<and>
   backported_from (classify_group example_tie ! 2) \<noteq> Some 4"
  using example_tie_rows by (simp add: example_tie_def)

text \<open>
  Claim C2, amended. For a group with unique ranks and a row flagged backported, let \<open>R\<close> be
  the running maximum of the rank at that row; a release \<open>p\<close> of rank \<open>R\<close> stands at or before
  the row. When a release \<open>n\<close> of rank \<open>R + 1\<close> exists, \<open>backported_from\<close> is \<open>R\<close> if the date
  of \<open>p\<close> is at most as far from the row's date as the date of \<open>n\<close> (so on a tie too), and
  \<open>R + 1\<close> otherwise. When no release has rank \<open>R + 1\<close> and \<open>p\<close> is not dated before
  1900-01-01, the date the code puts in place of the missing neighbour, \<open>backported_from\<close>
  is \<open>R\<close>.
\<close>

theorem backported_from_closest_neighbour:
  assumes "distinct (map rank grp)" and "i < length grp"
    and "backported (classify_group grp ! i)"
  shows "\<exists>p \<in> set (take (Suc i) (timeline grp)).
           rank p = Max (set (map rank (take (Suc i) (timeline grp)))) \<and>
           (\<forall>n \<in> set grp. rank n = rank p + 1 \<longrightarrow>
              backported_from (classify_group grp ! i) =
                Some (if \<bar>date (timeline grp ! i) - date p\<bar> \<le> \<bar>date (timeline grp ! i) - date n\<bar>
                      then rank p else rank p + 1)) \<and>
           ((\<forall>n \<in> set grp. rank n \<noteq> rank p + 1) \<and> date_1900 \<le> date p \<longrightarrow>
              backported_from (classify_group grp ! i) = Some (rank p))"
proof -
  let ?tl = "timeline grp"
  let ?d = "date (?tl ! i)"
  define R where "R = Max (set (map rank (take (Suc i) ?tl)))"
  let ?flag = "snd (detect_backported (assign_kind grp) ! i)"
  have dt: "distinct (map rank ?tl)" by (rule distinct_rank_timeline[OF assms(1)])
  have "?flag \<noteq> None"
    using assms(3) by (simp add: classify_group_nth[OF assms(1,2)] with_classification_def)
  then have flag: "?flag = Some R"
    unfolding R_def detect_flag_nth[OF assms(2)] by (simp split: if_splits)
  have bf: "backported_from (classify_group grp ! i) = attribution ?tl (?tl ! i) (Some R)"
    by (simp add: classify_group_nth[OF assms(1,2)] with_classification_def flag)
  have "i < length ?tl" using assms(2) by (simp add: length_timeline)
  then have "length (take (Suc i) ?tl) = Suc i" by simp
  then have "take (Suc i) ?tl \<noteq> []" by (metis Zero_not_Suc list.size(3))
  then have "R \<in> set (map rank (take (Suc i) ?tl))"
    unfolding R_def by (intro Max_in) simp_all
  then obtain p where p: "p \<in> set (take (Suc i) ?tl)" "rank p = R" by auto
  then have ptl: "p \<in> set ?tl" by (meson in_set_takeD)
  have fp: "find (\<lambda>x. Some (rank x) = Some R) ?tl = Some p"
    using find_distinct_key[OF dt ptl] p(2) by simp
  have dle: "date p \<le> ?d" by (rule timeline_earlier_date[OF assms(2) p(1)])
  have dn: "distinct (map (\<lambda>x. rank x - 1) ?tl)"
    using dt by (simp add: distinct_map inj_on_def)
  have with_next: "backported_from (classify_group grp ! i) =
      Some (if \<bar>?d - date p\<bar> \<le> \<bar>?d - date n\<bar> then rank p else rank p + 1)"
    if n: "n \<in> set grp" "rank n = rank p + 1" for n
  proof -
    from n(1) have "n \<in> set ?tl" by (simp add: set_timeline)
    from find_distinct_key[OF dn this] n(2) p(2)
    have "find (\<lambda>x. Some (rank x - 1) = Some R) ?tl = Some n" by simp
    with fp n(2) p(2) show ?thesis
      unfolding bf by (simp add: attribution_def le_nat_def abs_diff_def)
  qed
  have without_next: "backported_from (classify_group grp ! i) = Some (rank p)"
    if none: "\<forall>n \<in> set grp. rank n \<noteq> rank p + 1" and old: "date_1900 \<le> date p"
  proof -
    have "find (\<lambda>x. Some (rank x - 1) = Some R) ?tl = None"
      using none p(2) by (auto simp: find_None_iff set_timeline)
    moreover have "\<bar>?d - date p\<bar> \<le> \<bar>?d - date_1900\<bar>"
      using dle old by simp
    ultimately show ?thesis
      unfolding bf using fp p(2) by (simp add: attribution_def le_nat_def abs_diff_def)
  qed
  from p with_next without_next show ?thesis unfolding R_def by blast
qed

theorem backported_from_closest_neighbour_witness:
  "distinct (map rank example_history) \<and> 2 < length example_history \<and>
   backported (classify_group example_history ! 2) \<and>
   backported_from (classify_group example_history ! 2) = Some 4 \<and>
   (\<exists>p \<in> set (take (Suc 2) (timeline example_history)).
      rank p = Max (set (map rank (take (Suc 2) (timeline example_history)))) \<and>
      (\<forall>n \<in> set example_history. rank n = rank p + 1 \<longrightarrow>
         backported_from (classify_group example_history ! 2) =
           Some (if \<bar>date (timeline example_history ! 2) - date p\<bar>
                    \<le> \<bar>date (timeline example_history ! 2) - date n\<bar>
                 then rank p else rank p + 1)) \<and>
      ((\<forall>n \<in> set example_history. rank n \<noteq> rank p + 1) \<and> date_1900 \<le> date p \<longrightarrow>
         backported_from (classify_group example_history ! 2) = Some (rank p)))"
  using backported_from_closest_neighbour[OF example_history_facts(1,2) example_history_rows(1)]
    example_history_facts(1,2) example_history_rows(1,2)
  by blast

end
